theory Spec2Isabelle
  imports Main
begin

section \<open>Values, errors and options\<close>

text \<open>
  The elements that flow through the library are JavaScript values. Only the distinctions
  the operations themselves make are kept: \<open>undefined\<close> and \<open>null\<close> (tested by
  \<open>===\<close> and \<open>??\<close>), booleans, numbers (integers here), strings and arrays.
  A finite iterable (an array, a finished generator) is the list of its elements.
  Sizes and limits are integers; callbacks are total functions that do not throw, and a
  predicate's truthiness is a \<open>bool\<close>.
\<close>

datatype val = Undefined | Null | Bool bool | Num int | Str string | Arr "val list"

text \<open>
  A thrown exception is a value of \<open>error\<close>, carrying the message. The messages of
  errors thrown by the language's built-ins differ between engines; a fixed text stands
  for them.
\<close>

datatype error = Error string | TypeError string | RangeError string

text \<open>
  The options object \<open>{strategy, fillValue}\<close>: a key that is absent is \<open>None\<close>.
  An options object that is omitted from the call is \<open>None\<close> of type
  \<open>options option\<close>. Strategy names are strings.
\<close>

record options =
  strategy :: "string option"
  fillValue :: "val option"

text \<open>The operator \<open>a ?? b\<close>: \<open>b\<close> when \<open>a\<close> is \<open>null\<close> or \<open>undefined\<close>.\<close>

definition nullish :: "val \<Rightarrow> val \<Rightarrow> val" where
  "nullish a b = (if a = Undefined \<or> a = Null then b else a)"

text \<open>
  String conversion of a plain object, as a template literal performs it on
  \<open>${options}\<close>.
\<close>

definition object_toString :: "options \<Rightarrow> string" where
  "object_toString opts = ''[object Object]''"

section \<open>chunk\<close>

text \<open>
  The \<open>for\<close> loop of \<open>chunk\<close> over the remaining input, with the variables
  \<open>result\<close> and \<open>current\<close>; it returns both as they stand after the loop.
\<close>

fun chunk_loop :: "int \<Rightarrow> val list \<Rightarrow> val list list \<Rightarrow> val list \<Rightarrow> val list list \<times> val list" where
  "chunk_loop sz [] result current = (result, current)"
| "chunk_loop sz (e # it) result current =
     (let current' = current @ [e]
      in if int (length current') = sz
         then chunk_loop sz it (result @ [current']) []
         else chunk_loop sz it result current')"

text \<open>
  \<open>current.length = size\<close> cuts the array or extends it with holes, which
  \<open>Array.from\<close> reads as \<open>undefined\<close>.
\<close>

definition set_length :: "val list \<Rightarrow> int \<Rightarrow> val list" where
  "set_length arr n = take (nat n) arr @ replicate (nat n - length arr) Undefined"

text \<open>
  \<open>chunk(iterable, size, {strategy = "dropEnd", fillValue = undefined} = {})\<close>:
  the defaults of the destructured parameter, the size check, the loop, and the chain of
  strategy tests on the trailing group \<open>current\<close>. No branch tests for
  \<open>dropEnd\<close>: it is what remains when no other test succeeds.
\<close>

definition chunk :: "val list \<Rightarrow> int \<Rightarrow> options option \<Rightarrow> error + val list list" where
  "chunk iterable sz opts =
     (let given = (case opts of None \<Rightarrow> \<lparr>strategy = None, fillValue = None\<rparr> | Some b \<Rightarrow> b);
          strat = (case strategy given of None \<Rightarrow> ''dropEnd'' | Some s \<Rightarrow> s);
          fill = (case fillValue given of None \<Rightarrow> Undefined | Some v \<Rightarrow> v)
      in if sz \<le> 0 then Inl (Error ''Cannot yield chunks of size <= 0'')
         else (case chunk_loop sz iterable [] [] of (result, current) \<Rightarrow>
           if strat = ''keepEnd'' \<and> current \<noteq> [] then Inr (result @ [current])
           else if strat = ''padEnd'' \<and> current \<noteq> []
             then Inr (result @ [map (\<lambda>e. nullish e fill) (set_length current sz)])
           else if strat = ''strict'' \<and> current \<noteq> [] then Inl (Error ''Incomplete chunk'')
           else Inr result))"

section \<open>reduce and scan\<close>

text \<open>
  The built-in \<open>Iterator.prototype.reduce\<close>, as the language defines it: called
  without an initial value (\<open>None\<close>) it takes the first element as accumulator and
  counts from 1, and throws a \<open>TypeError\<close> when there is no first element; called
  with one it counts from 0.
\<close>

fun reduce_loop :: "(val \<Rightarrow> val \<Rightarrow> nat \<Rightarrow> val) \<Rightarrow> val \<Rightarrow> nat \<Rightarrow> val list \<Rightarrow> val" where
  "reduce_loop reducer accumulator counter [] = accumulator"
| "reduce_loop reducer accumulator counter (v # it) =
     reduce_loop reducer (reducer accumulator v counter) (Suc counter) it"

definition iterator_reduce :: "val list \<Rightarrow> (val \<Rightarrow> val \<Rightarrow> nat \<Rightarrow> val) \<Rightarrow> val option \<Rightarrow> error + val" where
  "iterator_reduce it reducer initialValue =
     (case initialValue of
        None \<Rightarrow>
          (case it of
             [] \<Rightarrow> Inl (TypeError ''Reduce of empty iterator with no initial value'')
           | first # rest \<Rightarrow> Inr (reduce_loop reducer first 1 rest))
      | Some v \<Rightarrow> Inr (reduce_loop reducer v 0 it))"

text \<open>
  \<open>reduce(iterable, reducer, initial)\<close>. The third argument of the call is
  \<open>None\<close> when the caller leaves it out and \<open>Some v\<close> when the caller passes
  \<open>v\<close>; the parameter \<open>initial\<close> is bound to \<open>undefined\<close> in the first case.
\<close>

definition reduce :: "val list \<Rightarrow> (val \<Rightarrow> val \<Rightarrow> nat \<Rightarrow> val) \<Rightarrow> val option \<Rightarrow> error + val" where
  "reduce iterable reducer arg =
     (let initial = (case arg of None \<Rightarrow> Undefined | Some v \<Rightarrow> v)
      in if initial = Undefined then iterator_reduce iterable reducer None
         else iterator_reduce iterable reducer (Some initial))"

text \<open>
  \<open>scan(iterable, accumulator, initial)\<close>: the loop over the rest of the iterator
  with \<open>current\<close>, \<open>i\<close> and \<open>result\<close>, and the two ways of starting it.
  On a list and with a callback that does not throw, \<open>scan\<close> always returns.
\<close>

fun scan_loop :: "(val \<Rightarrow> val \<Rightarrow> nat \<Rightarrow> val) \<Rightarrow> val list \<Rightarrow> val \<Rightarrow> nat \<Rightarrow> val list \<Rightarrow> val list" where
  "scan_loop accumulator [] current i result = result"
| "scan_loop accumulator (e # it) current i result =
     (let acc = accumulator current e i
      in scan_loop accumulator it acc (Suc i) (result @ [acc]))"

definition scan :: "val list \<Rightarrow> (val \<Rightarrow> val \<Rightarrow> nat \<Rightarrow> val) \<Rightarrow> val option \<Rightarrow> val list" where
  "scan iterable accumulator arg =
     (let initial = (case arg of None \<Rightarrow> Undefined | Some v \<Rightarrow> v)
      in if initial \<noteq> Undefined then scan_loop accumulator iterable initial 0 []
         else (case iterable of
                 [] \<Rightarrow> []
               | first # it \<Rightarrow> scan_loop accumulator it first 1 [first]))"

section \<open>Operations that stop early\<close>

text \<open>
  For the operations that may stop before the input ends, the input is a cursor: the
  elements it still yields, and what pulling past the last of them does, either report
  the end (\<open>Ends\<close>) or throw (\<open>Raises err\<close>, the test suite's
  \<open>temperamentalIter\<close>). Closing a cursor early never throws.
\<close>

datatype ending = Ends | Raises error

type_synonym cursor = "val list \<times> ending"

text \<open>
  The built-in iterator helpers \<open>every\<close>, \<open>some\<close>, \<open>find\<close> and
  \<open>take\<close>, as the language defines them: each pulls one element at a time, calls
  the predicate with the element and a counter, and closes the iterator as soon as it
  returns. \<open>take\<close> tests its remaining count before it pulls.
\<close>

fun every :: "(val \<Rightarrow> nat \<Rightarrow> bool) \<Rightarrow> nat \<Rightarrow> val list \<Rightarrow> ending \<Rightarrow> error + bool" where
  "every predicate counter [] Ends = Inr True"
| "every predicate counter [] (Raises err) = Inl err"
| "every predicate counter (v # it) fin =
     (if \<not> predicate v counter then Inr False
      else every predicate (Suc counter) it fin)"

fun some :: "(val \<Rightarrow> nat \<Rightarrow> bool) \<Rightarrow> nat \<Rightarrow> val list \<Rightarrow> ending \<Rightarrow> error + bool" where
  "some predicate counter [] Ends = Inr False"
| "some predicate counter [] (Raises err) = Inl err"
| "some predicate counter (v # it) fin =
     (if predicate v counter then Inr True
      else some predicate (Suc counter) it fin)"

fun iterator_find :: "(val \<Rightarrow> nat \<Rightarrow> bool) \<Rightarrow> nat \<Rightarrow> val list \<Rightarrow> ending \<Rightarrow> error + val" where
  "iterator_find predicate counter [] Ends = Inr Undefined"
| "iterator_find predicate counter [] (Raises err) = Inl err"
| "iterator_find predicate counter (v # it) fin =
     (if predicate v counter then Inr v
      else iterator_find predicate (Suc counter) it fin)"

fun iterator_take :: "nat \<Rightarrow> val list \<Rightarrow> ending \<Rightarrow> val list \<Rightarrow> error + val list" where
  "iterator_take 0 it fin result = Inr result"
| "iterator_take (Suc remaining) [] Ends result = Inr result"
| "iterator_take (Suc remaining) [] (Raises err) result = Inl err"
| "iterator_take (Suc remaining) (v # it) fin result = iterator_take remaining it fin (result @ [v])"

text \<open>
  \<open>all\<close>, \<open>any\<close> and \<open>find\<close> hand the iterator to the helper of the same
  purpose; \<open>take\<close> spreads the helper's iterator into an array and rejects a
  negative limit with a \<open>RangeError\<close>, as the helper does.
\<close>

definition all :: "cursor \<Rightarrow> (val \<Rightarrow> nat \<Rightarrow> bool) \<Rightarrow> error + bool" where
  "all iterable predicate = (case iterable of (it, fin) \<Rightarrow> every predicate 0 it fin)"

definition any :: "cursor \<Rightarrow> (val \<Rightarrow> nat \<Rightarrow> bool) \<Rightarrow> error + bool" where
  "any iterable predicate = (case iterable of (it, fin) \<Rightarrow> some predicate 0 it fin)"

definition find_enum :: "cursor \<Rightarrow> (val \<Rightarrow> nat \<Rightarrow> bool) \<Rightarrow> error + val" where
  "find_enum iterable predicate = (case iterable of (it, fin) \<Rightarrow> iterator_find predicate 0 it fin)"

text \<open>The \<open>for\<close> loops of \<open>findIndex\<close> and \<open>takeWhile\<close>.\<close>

fun findIndex_loop :: "(val \<Rightarrow> nat \<Rightarrow> bool) \<Rightarrow> nat \<Rightarrow> val list \<Rightarrow> ending \<Rightarrow> error + int" where
  "findIndex_loop predicate i [] Ends = Inr (- 1)"
| "findIndex_loop predicate i [] (Raises err) = Inl err"
| "findIndex_loop predicate i (e # it) fin =
     (if predicate e i then Inr (int i)
      else findIndex_loop predicate (Suc i) it fin)"

definition findIndex :: "cursor \<Rightarrow> (val \<Rightarrow> nat \<Rightarrow> bool) \<Rightarrow> error + int" where
  "findIndex iterable predicate = (case iterable of (it, fin) \<Rightarrow> findIndex_loop predicate 0 it fin)"

definition take_enum :: "cursor \<Rightarrow> int \<Rightarrow> error + val list" where
  "take_enum iterable limit =
     (case iterable of (it, fin) \<Rightarrow>
        if limit < 0 then Inl (RangeError ''limit must be positive'')
        else iterator_take (nat limit) it fin [])"

fun takeWhile_loop :: "(val \<Rightarrow> nat \<Rightarrow> bool) \<Rightarrow> nat \<Rightarrow> val list \<Rightarrow> ending \<Rightarrow> val list \<Rightarrow> error + val list" where
  "takeWhile_loop predicate i [] Ends result = Inr result"
| "takeWhile_loop predicate i [] (Raises err) result = Inl err"
| "takeWhile_loop predicate i (e # it) fin result =
     (if predicate e i then takeWhile_loop predicate (Suc i) it fin (result @ [e])
      else Inr result)"

definition takeWhile_enum :: "cursor \<Rightarrow> (val \<Rightarrow> nat \<Rightarrow> bool) \<Rightarrow> error + val list" where
  "takeWhile_enum iterable predicate =
     (case iterable of (it, fin) \<Rightarrow> takeWhile_loop predicate 0 it fin [])"


section \<open>window\<close>

text \<open>
  The remainder operator \<open>%\<close> on integers takes the sign of the dividend. An
  assignment \<open>arr[i] = e\<close> past the end extends the array; the holes it may leave
  read as \<open>undefined\<close>.
\<close>

definition js_rem :: "int \<Rightarrow> int \<Rightarrow> int" where
  "js_rem a b = sgn a * (\<bar>a\<bar> mod \<bar>b\<bar>)"

definition js_set :: "val list \<Rightarrow> nat \<Rightarrow> val \<Rightarrow> val list" where
  "js_set arr i e =
     (if i < length arr then arr[i := e]
      else arr @ replicate (i - length arr) Undefined @ [e])"

text \<open>
  The first loop of \<open>window\<close> pulls up to \<open>size\<close> elements into \<open>arr\<close>
  and stops at the end of the input; it returns \<open>arr\<close> and the rest of the iterator.
  The second loop overwrites the oldest slot of the ring and emits the rotation that
  starts at \<open>front\<close>.
\<close>

fun window_fill :: "nat \<Rightarrow> val list \<Rightarrow> val list \<Rightarrow> val list \<times> val list" where
  "window_fill 0 it arr = (arr, it)"
| "window_fill (Suc n) [] arr = (arr, [])"
| "window_fill (Suc n) (x # it) arr = window_fill n it (arr @ [x])"

fun window_loop :: "int \<Rightarrow> val list \<Rightarrow> val list \<Rightarrow> int \<Rightarrow> val list list \<Rightarrow> val list list" where
  "window_loop sz [] arr front result = result"
| "window_loop sz (e # it) arr front result =
     (let arr' = js_set arr (nat front) e;
          front' = js_rem (front + 1) sz
      in window_loop sz it arr' front'
           (result @ [drop (nat front') arr' @ take (nat front') arr']))"

definition window :: "val list \<Rightarrow> int \<Rightarrow> error + val list list" where
  "window iterable sz =
     (if sz = 0 then Inl (Error ''Cannot yield sliding windows of size 0'')
      else (case window_fill (nat sz) iterable [] of (arr, it) \<Rightarrow>
        if int (length arr) < sz then Inr []
        else Inr (window_loop sz it arr 0 [arr])))"


section \<open>zip\<close>

text \<open>
  The iterators are the lists of the elements each still has to yield. One round of the
  inner \<open>for\<close> loop pulls from every iterator in turn and returns the batch with the
  advanced iterators; \<open>shortest_batch\<close> is \<open>None\<close> when an iterator is done,
  which is where \<open>zipShortest\<close> returns. The outer loops are \<open>while (true)\<close>:
  a run that never leaves the loop has the value \<open>None\<close>.
\<close>

fun shortest_batch :: "val list list \<Rightarrow> (val list \<times> val list list) option" where
  "shortest_batch [] = Some ([], [])"
| "shortest_batch ([] # its) = None"
| "shortest_batch ((x # it) # its) =
     (case shortest_batch its of None \<Rightarrow> None
      | Some (batch, its') \<Rightarrow> Some (x # batch, it # its'))"

partial_function (option) zipShortest_loop :: "val list list \<Rightarrow> val list list \<Rightarrow> val list list option" where
  "zipShortest_loop iterables result =
     (case shortest_batch iterables of
        None \<Rightarrow> Some result
      | Some (batch, its') \<Rightarrow> zipShortest_loop its' (result @ [batch]))"

definition zipShortest :: "val list list \<Rightarrow> val list list option" where
  "zipShortest iterables = zipShortest_loop iterables []"

fun longest_batch :: "val \<Rightarrow> val list list \<Rightarrow> val list \<times> nat \<times> val list list" where
  "longest_batch fill [] = ([], 0, [])"
| "longest_batch fill ([] # its) =
     (case longest_batch fill its of (batch, ndone, its') \<Rightarrow> (fill # batch, Suc ndone, [] # its'))"
| "longest_batch fill ((x # it) # its) =
     (case longest_batch fill its of (batch, ndone, its') \<Rightarrow> (x # batch, ndone, it # its'))"

partial_function (option) zipLongest_loop :: "val \<Rightarrow> val list list \<Rightarrow> val list list \<Rightarrow> val list list option" where
  "zipLongest_loop fill iterables result =
     (case longest_batch fill iterables of (batch, ndone, its') \<Rightarrow>
        if ndone = length iterables then Some result
        else zipLongest_loop fill its' (result @ [batch]))"

definition zipLongest :: "val list list \<Rightarrow> val \<Rightarrow> val list list option" where
  "zipLongest iterables fill = zipLongest_loop fill iterables []"

fun strict_batch :: "val list list \<Rightarrow> val list \<times> nat \<times> val list list" where
  "strict_batch [] = ([], 0, [])"
| "strict_batch ([] # its) =
     (case strict_batch its of (batch, ndone, its') \<Rightarrow> (batch, Suc ndone, [] # its'))"
| "strict_batch ((x # it) # its) =
     (case strict_batch its of (batch, ndone, its') \<Rightarrow> (x # batch, ndone, it # its'))"

partial_function (option) zipStrict_loop :: "val list list \<Rightarrow> val list list \<Rightarrow> (error + val list list) option" where
  "zipStrict_loop iterables result =
     (case strict_batch iterables of (batch, ndone, its') \<Rightarrow>
        if ndone = 0 then zipStrict_loop its' (result @ [batch])
        else if ndone = length iterables then Some (Inr result)
        else Some (Inl (Error ''Zipped iterables of unequal length with strategy = strict'')))"

definition zipStrict :: "val list list \<Rightarrow> (error + val list list) option" where
  "zipStrict iterables = zipStrict_loop iterables []"

text \<open>
  \<open>zip(...args)\<close>. The trailing argument counts as the options when it is an object
  with a \<open>strategy\<close> key: \<open>last_arg\<close> is that object if the call has one, and
  \<open>args\<close> are the data iterables. An object without the key is taken for an
  iterable, and asking it for an iterator throws. The message of the default branch
  interpolates \<open>options\<close>, the object.
\<close>

definition zip_enum :: "val list list \<Rightarrow> options option \<Rightarrow> (error + val list list) option" where
  "zip_enum args last_arg =
     (case (case last_arg of
              Some given \<Rightarrow>
                (case strategy given of
                   Some s \<Rightarrow> Inr (given, args)
                 | None \<Rightarrow> Inl (TypeError ''object is not iterable''))
            | None \<Rightarrow> Inr (\<lparr>strategy = Some ''shortest'', fillValue = None\<rparr>, args)) of
        Inl e \<Rightarrow> Some (Inl e)
      | Inr (opts, iterables) \<Rightarrow>
          if strategy opts = Some ''shortest'' then map_option Inr (zipShortest iterables)
          else if strategy opts = Some ''longest''
            then map_option Inr (zipLongest iterables
                   (case fillValue opts of None \<Rightarrow> Undefined | Some v \<Rightarrow> v))
          else if strategy opts = Some ''strict'' then zipStrict iterables
          else Some (Inl (Error (''Unrecognised strategy: '' @ [CHR 0x22]
                                   @ object_toString opts @ [CHR 0x22]))))"

section \<open>Callbacks of the examples\<close>

text \<open>
  \<open>(a, e) => a + e\<close> on numbers and \<open>(a, e) => a + e.length\<close> on a number and a
  string, as the documentation's examples use them; on other operands, where JavaScript
  would coerce, these two return \<open>undefined\<close>. \<open>(a, e, i) => i\<close> returns the index
  it is called with.
\<close>

definition add_nums :: "val \<Rightarrow> val \<Rightarrow> nat \<Rightarrow> val" where
  "add_nums a e i = (case (a, e) of (Num x, Num y) \<Rightarrow> Num (x + y) | _ \<Rightarrow> Undefined)"

definition add_length :: "val \<Rightarrow> val \<Rightarrow> nat \<Rightarrow> val" where
  "add_length a e i = (case (a, e) of (Num x, Str s) \<Rightarrow> Num (x + int (length s)) | _ \<Rightarrow> Undefined)"

definition pick_index :: "val \<Rightarrow> val \<Rightarrow> nat \<Rightarrow> val" where
  "pick_index a e i = Num (int i)"

text \<open>
  The values that the loop of \<open>scan\<close> appends to \<open>result\<close>, written without the
  accumulating parameter; \<open>scan_loop_outputs\<close> below relates the two.
\<close>

fun scan_outputs :: "(val \<Rightarrow> val \<Rightarrow> nat \<Rightarrow> val) \<Rightarrow> val \<Rightarrow> nat \<Rightarrow> val list \<Rightarrow> val list" where
  "scan_outputs accumulator current i [] = []"
| "scan_outputs accumulator current i (e # it) =
     accumulator current e i # scan_outputs accumulator (accumulator current e i) (Suc i) it"

section \<open>Properties of chunk\<close>

lemma chunk_loop_concat:
  "chunk_loop sz it result current = (r, c) \<Longrightarrow> concat r @ c = concat result @ current @ it"
proof (induction it arbitrary: result current)
  case Nil
  then show ?case by simp
next
  case (Cons e it)
  show ?case
  proof (cases "int (length (current @ [e])) = sz")
    case True
    with Cons.prems have "chunk_loop sz it (result @ [current @ [e]]) [] = (r, c)"
      by simp
    from Cons.IH [OF this] show ?thesis by simp
  next
    case False
    with Cons.prems have "chunk_loop sz it result (current @ [e]) = (r, c)"
      by simp
    from Cons.IH [OF this] show ?thesis by simp
  qed
qed

text \<open>
  C9. For every finite sequence \<open>s\<close> and every size \<open>n > 0\<close>, \<open>chunk\<close> under the
  strategy \<open>keepEnd\<close> returns groups whose concatenation, in order, is exactly \<open>s\<close>.
\<close>

theorem chunk_keepEnd_lossless:
  assumes "0 < n"
  shows "\<exists>groups. chunk s n (Some \<lparr>strategy = Some ''keepEnd'', fillValue = fv\<rparr>) = Inr groups
           \<and> concat groups = s"
proof -
  obtain r c where rc: "chunk_loop n s [] [] = (r, c)"
    by (cases "chunk_loop n s [] []")
  from chunk_loop_concat [OF rc] have "concat r @ c = s" by simp
  with rc assms show ?thesis
    by (cases "c = []") (simp_all add: chunk_def)
qed

theorem chunk_keepEnd_lossless_witness:
  "(0::int) < 2 \<and>
   chunk [Num 1, Num 2, Num 3, Num 4, Num 5] 2 (Some \<lparr>strategy = Some ''keepEnd'', fillValue = None\<rparr>)
     = Inr [[Num 1, Num 2], [Num 3, Num 4], [Num 5]] \<and>
   concat [[Num 1, Num 2], [Num 3, Num 4], [Num 5]] = [Num 1, Num 2, Num 3, Num 4, Num 5]"
  using chunk_keepEnd_lossless [of 2 "[Num 1, Num 2, Num 3, Num 4, Num 5]" None]
  by (simp add: chunk_def)

text \<open>
  C2. Under \<open>padEnd\<close> a trailing partial group is to be extended to \<open>size\<close> by filling
  only the missing slots, every element drawn from the input staying as it is,
  \<open>null\<close> and \<open>undefined\<close> included. The code fills with \<open>e ?? fillValue\<close> over
  the whole trailing group, so an element that is \<open>null\<close> is replaced as well:
  \<open>chunk([1, 2, null], 2, {strategy: "padEnd", fillValue: 999})\<close> ends with the
  group \<open>[999, 999]\<close>, not \<open>[null, 999]\<close>.
\<close>

theorem chunk_padEnd_replaces_null:
  "chunk [Num 1, Num 2, Null] 2 (Some \<lparr>strategy = Some ''padEnd'', fillValue = Some (Num 999)\<rparr>)
     = Inr [[Num 1, Num 2], [Num 999, Num 999]]"
  by (simp add: chunk_def set_length_def nullish_def)

lemma chunk_otherwise:
  assumes "0 < n" "s \<noteq> ''keepEnd''" "s \<noteq> ''padEnd''" "s \<noteq> ''strict''"
  shows "chunk xs n (Some \<lparr>strategy = Some s, fillValue = fv\<rparr>) = Inr (fst (chunk_loop n xs [] []))"
  using assms by (simp add: chunk_def split: prod.splits)

section \<open>Properties of zip\<close>

lemma zipShortest_loop_empty: "zipShortest_loop [] r = None"
proof -
  have "its \<noteq> []" if "zipShortest_loop its r = Some y" for its r y
  proof (rule zipShortest_loop.raw_induct [where P = "\<lambda>its r y. its \<noteq> []", OF _ that])
    fix f its r y
    assume "\<And>its r y. f its r = Some y \<Longrightarrow> its \<noteq> []"
      and "(case shortest_batch its of None \<Rightarrow> Some r
            | Some (batch, its') \<Rightarrow> f its' (r @ [batch])) = Some y"
    then show "its \<noteq> []" by (fastforce split: option.splits)
  qed
  then show ?thesis by (cases "zipShortest_loop [] r") auto
qed

lemma zipStrict_loop_empty: "zipStrict_loop [] r = None"
proof -
  have "its \<noteq> []" if "zipStrict_loop its r = Some y" for its r y
  proof (rule zipStrict_loop.raw_induct [where P = "\<lambda>its r y. its \<noteq> []", OF _ that])
    fix f its r y
    assume "\<And>its r y. f its r = Some y \<Longrightarrow> its \<noteq> []"
      and "(case strict_batch its of (batch, ndone, its') \<Rightarrow>
        if ndone = 0 then f its' (r @ [batch])
        else if ndone = length its then Some (Inr r)
        else Some (Inl (Error ''Zipped iterables of unequal length with strategy = strict''))) = Some y"
    then show "its \<noteq> []" by (fastforce split: prod.splits if_splits)
  qed
  then show ?thesis by (cases "zipStrict_loop [] r") auto
qed

lemma shortest_two:
  "zipShortest_loop [a, b] r = Some (r @ map (\<lambda>(x, y). [x, y]) (zip a b))"
proof (induction a arbitrary: b r)
  case Nil
  show ?case by (subst zipShortest_loop.simps) simp
next
  case (Cons x a)
  show ?case
  proof (cases b)
    case Nil
    then show ?thesis by (subst zipShortest_loop.simps) simp
  next
    case (Cons y b')
    then show ?thesis by (subst zipShortest_loop.simps) (simp add: Cons.IH)
  qed
qed


lemma longest_left:
  "\<exists>r'. zipLongest_loop fill [a, []] r = Some r' \<and> length r' = length r + length a"
proof (induction a arbitrary: r)
  case Nil
  show ?case by (subst zipLongest_loop.simps) simp
next
  case (Cons x a)
  from Cons.IH [of "r @ [[x, fill]]"] show ?case
    by (subst zipLongest_loop.simps) simp
qed

lemma longest_right:
  "\<exists>r'. zipLongest_loop fill [[], b] r = Some r' \<and> length r' = length r + length b"
proof (induction b arbitrary: r)
  case Nil
  show ?case by (subst zipLongest_loop.simps) simp
next
  case (Cons y b)
  from Cons.IH [of "r @ [[fill, y]]"] show ?case
    by (subst zipLongest_loop.simps) simp
qed

lemma longest_two:
  "\<exists>r'. zipLongest_loop fill [a, b] r = Some r' \<and> length r' = length r + max (length a) (length b)"
proof (induction a b arbitrary: r rule: list_induct2')
  case 1
  show ?case by (subst zipLongest_loop.simps) simp
next
  case (2 x xs)
  from longest_left [of fill "x # xs" r] show ?case by simp
next
  case (3 y ys)
  from longest_right [of fill "y # ys" r] show ?case by simp
next
  case (4 x xs y ys)
  from 4 [of "r @ [[x, y]]"] show ?case
    by (subst zipLongest_loop.simps) simp
qed

lemma strict_two:
  "zipStrict_loop [a, b] r =
     (if length a = length b then Some (Inr (r @ map (\<lambda>(x, y). [x, y]) (zip a b)))
      else Some (Inl (Error ''Zipped iterables of unequal length with strategy = strict'')))"
proof (induction a b arbitrary: r rule: list_induct2')
  case 1
  show ?case by (subst zipStrict_loop.simps) simp
next
  case (2 x xs)
  show ?case by (subst zipStrict_loop.simps) simp
next
  case (3 y ys)
  show ?case by (subst zipStrict_loop.simps) simp
next
  case (4 x xs y ys)
  from 4 [of "r @ [[x, y]]"] show ?case
    by (subst zipStrict_loop.simps) simp
qed

text \<open>
  C4. For every pair of finite iterables \<open>a\<close> and \<open>b\<close>: under \<open>longest\<close> with a
  fill value \<open>zip\<close> returns \<open>max (length a) (length b)\<close> tuples, under
  \<open>shortest\<close> it returns \<open>min (length a) (length b)\<close> tuples, and under
  \<open>strict\<close> it returns, and what it returns is an error if and only if the lengths
  differ.
\<close>

theorem zip_two_lengths:
  "(\<exists>r. zip_enum [a, b] (Some \<lparr>strategy = Some ''longest'', fillValue = Some x\<rparr>) = Some (Inr r)
        \<and> length r = max (length a) (length b))
   \<and> (\<exists>r. zip_enum [a, b] (Some \<lparr>strategy = Some ''shortest'', fillValue = fv\<rparr>) = Some (Inr r)
        \<and> length r = min (length a) (length b))
   \<and> (\<exists>res. zip_enum [a, b] (Some \<lparr>strategy = Some ''strict'', fillValue = fv\<rparr>) = Some res
        \<and> ((\<exists>e. res = Inl e) \<longleftrightarrow> length a \<noteq> length b))"
proof (intro conjI)
  from longest_two [of x a b "[]"]
  show "\<exists>r. zip_enum [a, b] (Some \<lparr>strategy = Some ''longest'', fillValue = Some x\<rparr>) = Some (Inr r)
        \<and> length r = max (length a) (length b)"
    by (auto simp: zip_enum_def zipLongest_def)
  show "\<exists>r. zip_enum [a, b] (Some \<lparr>strategy = Some ''shortest'', fillValue = fv\<rparr>) = Some (Inr r)
        \<and> length r = min (length a) (length b)"
    by (simp add: zip_enum_def zipShortest_def shortest_two)
  show "\<exists>res. zip_enum [a, b] (Some \<lparr>strategy = Some ''strict'', fillValue = fv\<rparr>) = Some res
        \<and> ((\<exists>e. res = Inl e) \<longleftrightarrow> length a \<noteq> length b)"
    by (simp add: zip_enum_def zipStrict_def strict_two)
qed

theorem zip_two_lengths_witness:
  "zip_enum [[Num 1, Num 2, Num 3], [Str ''a'']] (Some \<lparr>strategy = Some ''longest'', fillValue = Some Null\<rparr>)
     = Some (Inr [[Num 1, Str ''a''], [Num 2, Null], [Num 3, Null]])"
  using zip_two_lengths [of "[Num 1, Num 2, Num 3]" "[Str ''a'']" Null None]
  by (simp add: zip_enum_def zipLongest_def zipLongest_loop.simps)

text \<open>
  C1. \<open>zip\<close> called with no data iterable is to return an empty result under every
  strategy. Under \<open>longest\<close> it does. Under \<open>shortest\<close>, the default, no iterator
  is there to report the end, and under \<open>strict\<close> the test \<open>done === 0\<close> comes
  first: both loops append the empty batch for ever and the call never returns.
\<close>

theorem zip_zero_iterables:
  "zip_enum [] None = None
   \<and> zip_enum [] (Some \<lparr>strategy = Some ''shortest'', fillValue = fv\<rparr>) = None
   \<and> zip_enum [] (Some \<lparr>strategy = Some ''strict'', fillValue = fv\<rparr>) = None
   \<and> zip_enum [] (Some \<lparr>strategy = Some ''longest'', fillValue = fv\<rparr>) = Some (Inr [])"
  by (simp add: zip_enum_def zipShortest_def zipStrict_def zipLongest_def
      zipShortest_loop_empty zipStrict_loop_empty zipLongest_loop.simps)

text \<open>
  C3, as the code has it. \<open>zip\<close> with an options object whose strategy is none of
  \<open>shortest\<close>, \<open>longest\<close>, \<open>strict\<close> returns by raising an error, whatever the
  iterables are, so no partial result comes back. \<open>chunk\<close> does not check the name:
  with a size above 0 and a strategy that is none of its four names it raises nothing
  and returns what \<open>dropEnd\<close> returns.
\<close>

theorem unrecognised_strategy:
  "(s \<noteq> ''shortest'' \<and> s \<noteq> ''longest'' \<and> s \<noteq> ''strict'' \<longrightarrow>
      (\<exists>e. zip_enum its (Some \<lparr>strategy = Some s, fillValue = fv\<rparr>) = Some (Inl e)))
   \<and> (0 < n \<and> s \<noteq> ''dropEnd'' \<and> s \<noteq> ''keepEnd'' \<and> s \<noteq> ''padEnd'' \<and> s \<noteq> ''strict'' \<longrightarrow>
      (\<exists>groups. chunk xs n (Some \<lparr>strategy = Some s, fillValue = fv\<rparr>) = Inr groups
         \<and> chunk xs n (Some \<lparr>strategy = Some ''dropEnd'', fillValue = fv\<rparr>) = Inr groups))"
proof (intro conjI impI)
  assume "s \<noteq> ''shortest'' \<and> s \<noteq> ''longest'' \<and> s \<noteq> ''strict''"
  then show "\<exists>e. zip_enum its (Some \<lparr>strategy = Some s, fillValue = fv\<rparr>) = Some (Inl e)"
    by (simp add: zip_enum_def)
next
  assume a: "0 < n \<and> s \<noteq> ''dropEnd'' \<and> s \<noteq> ''keepEnd'' \<and> s \<noteq> ''padEnd'' \<and> s \<noteq> ''strict''"
  then have "chunk xs n (Some \<lparr>strategy = Some s, fillValue = fv\<rparr>) = Inr (fst (chunk_loop n xs [] []))"
    by (simp add: chunk_otherwise)
  moreover from a have "chunk xs n (Some \<lparr>strategy = Some ''dropEnd'', fillValue = fv\<rparr>)
      = Inr (fst (chunk_loop n xs [] []))"
    by (simp add: chunk_otherwise)
  ultimately show "\<exists>groups. chunk xs n (Some \<lparr>strategy = Some s, fillValue = fv\<rparr>) = Inr groups
         \<and> chunk xs n (Some \<lparr>strategy = Some ''dropEnd'', fillValue = fv\<rparr>) = Inr groups"
    by simp
qed

theorem unrecognised_strategy_witness:
  "(\<exists>e. zip_enum [[Num 1], [Num 2]] (Some \<lparr>strategy = Some ''foo'', fillValue = None\<rparr>) = Some (Inl e))
   \<and> chunk [Num 1, Num 2, Num 3] 2 (Some \<lparr>strategy = Some ''foo'', fillValue = None\<rparr>)
       = chunk [Num 1, Num 2, Num 3] 2 (Some \<lparr>strategy = Some ''dropEnd'', fillValue = None\<rparr>)"
  using unrecognised_strategy [of "''foo''" "[[Num 1], [Num 2]]" None 2 "[Num 1, Num 2, Num 3]"]
  by auto

text \<open>
  The claim as written fails at the strategy \<open>"foo"\<close>: \<open>chunk\<close> returns the full
  groups instead of raising, and the error of \<open>zip\<close> names \<open>[object Object]\<close>.
\<close>

theorem unrecognised_strategy_counterexample:
  "chunk [Num 1, Num 2, Num 3] 2 (Some \<lparr>strategy = Some ''foo'', fillValue = None\<rparr>)
     = Inr [[Num 1, Num 2]]
   \<and> zip_enum [[Num 1], [Num 2]] (Some \<lparr>strategy = Some ''foo'', fillValue = None\<rparr>)
     = Some (Inl (Error (''Unrecognised strategy: '' @ [CHR 0x22] @ ''[object Object]'' @ [CHR 0x22])))"
  by (simp add: chunk_def zip_enum_def object_toString_def)

section \<open>Properties of window\<close>

lemma window_fill_eq: "window_fill n it arr = (arr @ take n it, drop n it)"
  by (induction n it arr rule: window_fill.induct) simp_all

lemma rotate_step:
  assumes "front < length arr"
  shows "drop ((front + 1) mod length arr) (arr[front := e]) @ take ((front + 1) mod length arr) (arr[front := e])
         = tl (drop front arr @ take front arr) @ [e]"
proof (cases "front + 1 < length arr")
  case True
  then have "tl (drop front arr) = drop (Suc front) arr"
    by (simp add: drop_Suc tl_drop)
  with True assms show ?thesis
    by (simp add: take_Suc_conv_app_nth drop_update_cancel)
next
  case False
  with assms have k: "Suc front = length arr" by simp
  then have "drop front arr = [arr ! front]"
    by (metis Cons_nth_drop_Suc assms drop_all order_refl)
  moreover have "arr[front := e] = take front arr @ [e]"
    using k assms by (metis append_Nil2 drop_all id_take_nth_drop le_refl upd_conv_take_nth_drop Suc_leI lessI take_all upd_conv_take_nth_drop)
  ultimately show ?thesis using k by simp
qed


lemma js_rem_front:
  assumes "0 \<le> front" "0 < sz"
  shows "nat (js_rem (front + 1) sz) = (nat front + 1) mod nat sz"
proof -
  from assms have "js_rem (front + 1) sz = (front + 1) mod sz"
    by (simp add: js_rem_def)
  with assms show ?thesis
    by (simp add: nat_mod_distrib nat_add_distrib)
qed

lemma js_rem_front_bounds:
  assumes "0 \<le> front" "0 < sz"
  shows "0 \<le> js_rem (front + 1) sz \<and> js_rem (front + 1) sz < sz"
  using assms by (simp add: js_rem_def)

lemma map_upt_Suc_shift: "map f [0..<Suc n] = f 0 # map (\<lambda>i. f (Suc i)) [0..<n]"
  by (simp add: upt_conv_Cons map_Suc_upt [symmetric] del: upt_Suc)

lemma window_loop_slices:
  assumes "0 < sz" "int (length arr) = sz" "0 \<le> front" "front < sz"
  shows "window_loop sz it arr front result =
           result @ map (\<lambda>i. take (nat sz) (drop (Suc i) ((drop (nat front) arr @ take (nat front) arr) @ it)))
                      [0..<length it]"
  using assms
proof (induction it arbitrary: arr front result)
  case Nil
  then show ?case by simp
next
  case (Cons e it)
  define w where "w = drop (nat front) arr @ take (nat front) arr"
  let ?arr' = "js_set arr (nat front) e"
  let ?front' = "js_rem (front + 1) sz"
  from Cons.prems have lt: "nat front < length arr" by simp
  from Cons.prems have len: "length arr = nat sz" by simp
  from lt have arr': "?arr' = arr[nat front := e]" by (simp add: js_set_def)
  have f': "nat ?front' = (nat front + 1) mod length arr"
    using js_rem_front [of front sz] Cons.prems len by simp
  have w': "drop (nat ?front') ?arr' @ take (nat ?front') ?arr' = tl w @ [e]"
    unfolding arr' f' w_def using rotate_step [OF lt] .
  have lw: "length w = nat sz" using len by (simp add: w_def)
  have wne: "w \<noteq> []" using lw Cons.prems by auto
  have ltl: "length (tl w) = nat sz - 1" using lw by simp
  have first: "take (nat sz) (drop (Suc 0) (w @ e # it)) = tl w @ [e]"
  proof -
    have "drop (Suc 0) (w @ e # it) = (tl w @ [e]) @ it"
      using wne by (cases w) simp_all
    moreover have "take (nat sz) ((tl w @ [e]) @ it) = tl w @ [e]"
      using ltl Cons.prems by simp
    ultimately show ?thesis by simp
  qed
  have rest: "drop (Suc (Suc i)) (w @ e # it) = drop (Suc i) ((tl w @ [e]) @ it)" for i
    using wne by (cases w) simp_all
  have len': "int (length ?arr') = sz" using Cons.prems arr' by simp
  have b': "0 \<le> ?front' \<and> ?front' < sz"
    using js_rem_front_bounds [of front sz] Cons.prems by simp
  have "window_loop sz (e # it) arr front result =
          window_loop sz it ?arr' ?front' (result @ [tl w @ [e]])"
    using w' by (simp add: Let_def)
  also have "\<dots> = (result @ [tl w @ [e]]) @
       map (\<lambda>i. take (nat sz) (drop (Suc i) ((tl w @ [e]) @ it))) [0..<length it]"
    using Cons.IH [OF Cons.prems(1) len' conjunct1 [OF b'] conjunct2 [OF b'], of "result @ [tl w @ [e]]"]
    unfolding w' .
  also have "\<dots> = result @
       map (\<lambda>i. take (nat sz) (drop (Suc i) (w @ e # it))) [0..<length (e # it)]"
    unfolding length_Cons map_upt_Suc_shift first rest by simp
  finally show ?case unfolding w_def .
qed

lemma window_eq:
  assumes "1 \<le> k" "k \<le> int (length s)"
  shows "window s k = Inr (map (\<lambda>i. take (nat k) (drop i s)) [0..<length s - nat k + 1])"
proof -
  from assms have kn: "nat k \<le> length s" and k0: "0 < nat k" by simp_all
  have fill: "window_fill (nat k) s [] = (take (nat k) s, drop (nat k) s)"
    by (simp add: window_fill_eq)
  have la: "int (length (take (nat k) s)) = k" using assms by simp
  have "window_loop k (drop (nat k) s) (take (nat k) s) 0 [take (nat k) s]
        = [take (nat k) s] @ map (\<lambda>i. take (nat k) (drop (Suc i) (take (nat k) s @ drop (nat k) s)))
                      [0..<length (drop (nat k) s)]"
    using window_loop_slices [of k "take (nat k) s" 0 "drop (nat k) s" "[take (nat k) s]"] assms la
    by simp
  also have "\<dots> = map (\<lambda>i. take (nat k) (drop i s)) [0..<Suc (length s - nat k)]"
    unfolding map_upt_Suc_shift by simp
  finally show ?thesis
    using assms fill la by (simp add: window_def)
qed

text \<open>
  C5. For a finite sequence \<open>s\<close> of length \<open>n\<close> and \<open>1 \<le> k \<le> n\<close>,
  \<open>window\<close> returns exactly \<open>n - k + 1\<close> windows, each of length \<open>k\<close>, the
  \<open>i\<close>-th being the slice of \<open>s\<close> that starts at \<open>i\<close>; for \<open>n < k\<close> the
  result is empty, and \<open>k = 0\<close> is an error.
\<close>

theorem window_slices:
  "(1 \<le> k \<and> k \<le> int (length s) \<longrightarrow>
      (\<exists>ws. window s k = Inr ws \<and> length ws = length s - nat k + 1 \<and>
            (\<forall>i < length ws. length (ws ! i) = nat k \<and> ws ! i = take (nat k) (drop i s))))
   \<and> (1 \<le> k \<and> int (length s) < k \<longrightarrow> window s k = Inr [])
   \<and> window s 0 = Inl (Error ''Cannot yield sliding windows of size 0'')"
proof (intro conjI impI)
  assume a: "1 \<le> k \<and> k \<le> int (length s)"
  then have eq: "window s k = Inr (map (\<lambda>i. take (nat k) (drop i s)) [0..<length s - nat k + 1])"
    using window_eq by simp
  have "length (take (nat k) (drop i s)) = nat k" if "i < length s - nat k + 1" for i
  proof -
    from that a have "nat k \<le> length s - i" by arith
    then show ?thesis by simp
  qed
  then show "\<exists>ws. window s k = Inr ws \<and> length ws = length s - nat k + 1 \<and>
            (\<forall>i < length ws. length (ws ! i) = nat k \<and> ws ! i = take (nat k) (drop i s))"
    unfolding eq by (simp del: upt_Suc)
next
  assume b: "1 \<le> k \<and> int (length s) < k"
  then have "length s \<le> nat k" by arith
  with b have "int (length (take (nat k) s)) < k" by (simp add: min_def)
  with b show "window s k = Inr []"
    by (simp add: window_def window_fill_eq del: length_take)
next
  show "window s 0 = Inl (Error ''Cannot yield sliding windows of size 0'')"
    by (simp add: window_def)
qed

theorem window_slices_witness:
  "window [Num 1, Num 2, Num 3, Num 4] 2 = Inr [[Num 1, Num 2], [Num 2, Num 3], [Num 3, Num 4]]
   \<and> window [Num 1] 2 = Inr []"
  using window_slices [of 2 "[Num 1, Num 2, Num 3, Num 4]"] window_slices [of 2 "[Num 1]"]
  by (simp add: window_def js_set_def js_rem_def eval_nat_numeral)

section \<open>Properties of reduce and scan\<close>

lemma reduce_loop_foldl:
  "reduce_loop r a c xs = foldl (\<lambda>a (e, i). r a e i) a (zip xs [c..<c + length xs])"
proof (induction xs arbitrary: a c)
  case Nil
  show ?case by simp
next
  case (Cons x xs)
  have "[c..<c + length (x # xs)] = c # [Suc c..<Suc c + length xs]"
    by (simp add: upt_conv_Cons del: upt_Suc)
  then show ?case using Cons.IH [of "r a x c" "Suc c"] by simp
qed

text \<open>
  C6, as the code has it. Without an initial value, \<open>reduce\<close> raises an error on
  an empty input, and on \<open>x # xs\<close> it starts from \<open>x\<close> and folds over \<open>xs\<close>,
  the reducer getting the indices from 1. With an initial value \<open>v\<close> other than
  \<open>undefined\<close>, an empty input returns \<open>v\<close> unchanged, and on \<open>x # xs\<close> the
  first step combines \<open>v\<close> with \<open>x\<close> at index 0.
\<close>

theorem reduce_seed:
  "reduce [] r None = Inl (TypeError ''Reduce of empty iterator with no initial value'')
   \<and> reduce (x # xs) r None = Inr (foldl (\<lambda>a (e, i). r a e i) x (zip xs [1..<1 + length xs]))
   \<and> (v \<noteq> Undefined \<longrightarrow>
        reduce [] r (Some v) = Inr v
        \<and> reduce (x # xs) r (Some v) =
            Inr (foldl (\<lambda>a (e, i). r a e i) (r v x 0) (zip xs [1..<1 + length xs])))"
proof -
  have loop: "reduce_loop r a (Suc 0) xs
      = foldl (\<lambda>a (e, i). r a e i) a (zip xs [Suc 0..<Suc (length xs)])" for a
    using reduce_loop_foldl [of r a "Suc 0" xs] by simp
  show ?thesis
    by (simp add: reduce_def iterator_reduce_def loop del: upt_Suc)
qed

theorem reduce_seed_witness:
  "reduce [] add_nums (Some (Num 5)) = Inr (Num 5)
   \<and> reduce [Num 1, Num 2] add_nums (Some (Num 5)) = Inr (Num 8)"
  using reduce_seed [of add_nums "Num 1" "[Num 2]" "Num 5"]
  by (simp add: add_nums_def)

text \<open>
  The claim as written, for every supplied seed, fails when the seed passed is
  \<open>undefined\<close>: the empty input raises instead of returning it.
\<close>

theorem reduce_undefined_seed_counterexample:
  "reduce [] add_nums (Some Undefined) = Inl (TypeError ''Reduce of empty iterator with no initial value'')
   \<and> reduce [] add_nums (Some Undefined) \<noteq> Inr Undefined"
  by (simp add: reduce_def iterator_reduce_def)

lemma scan_loop_outputs:
  "scan_loop acc it cur i res = res @ scan_outputs acc cur i it"
  by (induction it arbitrary: cur i res) (simp_all add: Let_def)

lemma length_scan_outputs: "length (scan_outputs acc cur i it) = length it"
  by (induction it arbitrary: cur i) simp_all

lemma scan_outputs_nth:
  "k < length it \<Longrightarrow>
   (cur # scan_outputs acc cur i it) ! Suc k
     = acc ((cur # scan_outputs acc cur i it) ! k) (it ! k) (i + k)"
proof (induction it arbitrary: cur i k)
  case Nil
  then show ?case by simp
next
  case (Cons e it)
  show ?case
  proof (cases k)
    case 0
    then show ?thesis by simp
  next
    case (Suc j)
    with Cons.prems have "j < length it" by simp
    from Cons.IH [OF this, of "acc cur e i" "Suc i"] Suc show ?thesis by simp
  qed
qed

text \<open>
  C7, as the code has it. An empty input gives an empty result in both modes. Without
  an initial value the first output is the first element, and each further output
  combines the previous output with the next element, at that element's position,
  which starts at 1. With an initial value \<open>v\<close> other than \<open>undefined\<close> the result
  is as long as the input (the seed is not emitted) and its first output is
  \<open>acc v x 0\<close>. The two examples of the documentation come out as stated.
\<close>

theorem scan_modes:
  "scan [] acc arg = []
   \<and> (length (scan (x # xs) acc None) = Suc (length xs)
      \<and> scan (x # xs) acc None ! 0 = x
      \<and> (\<forall>k < length xs. scan (x # xs) acc None ! Suc k
            = acc (scan (x # xs) acc None ! k) (xs ! k) (Suc k)))
   \<and> (v \<noteq> Undefined \<longrightarrow>
        length (scan (x # xs) acc (Some v)) = Suc (length xs)
      \<and> scan (x # xs) acc (Some v) ! 0 = acc v x 0
      \<and> (\<forall>k < length xs. scan (x # xs) acc (Some v) ! Suc k
            = acc (scan (x # xs) acc (Some v) ! k) (xs ! k) (Suc k)))
   \<and> scan [Num 1, Num 2, Num 3, Num 4] add_nums None = [Num 1, Num 3, Num 6, Num 10]
   \<and> scan [Str ''foo'', Str ''bar'', Str ''baz''] add_length (Some (Num 0)) = [Num 3, Num 6, Num 9]"
proof (intro conjI impI allI)
  show "scan [] acc arg = []"
    by (cases arg) (simp_all add: scan_def)
  have none: "scan (x # xs) acc None = x # scan_outputs acc x 1 xs"
    by (simp add: scan_def scan_loop_outputs)
  show "length (scan (x # xs) acc None) = Suc (length xs)"
    by (simp add: none length_scan_outputs)
  show "scan (x # xs) acc None ! 0 = x"
    by (simp add: none)
  show "scan (x # xs) acc None ! Suc k = acc (scan (x # xs) acc None ! k) (xs ! k) (Suc k)"
    if "k < length xs" for k
    unfolding none using scan_outputs_nth [OF that, of x acc 1] by simp
  show "scan [Num 1, Num 2, Num 3, Num 4] add_nums None = [Num 1, Num 3, Num 6, Num 10]"
    by (simp add: scan_def add_nums_def)
  show "scan [Str ''foo'', Str ''bar'', Str ''baz''] add_length (Some (Num 0)) = [Num 3, Num 6, Num 9]"
    by (simp add: scan_def add_length_def)
next
  assume v: "v \<noteq> Undefined"
  then have some: "scan (x # xs) acc (Some v) = acc v x 0 # scan_outputs acc (acc v x 0) 1 xs"
    by (simp add: scan_def scan_loop_outputs)
  show "length (scan (x # xs) acc (Some v)) = Suc (length xs)"
    by (simp add: some length_scan_outputs)
  show "scan (x # xs) acc (Some v) ! 0 = acc v x 0"
    by (simp add: some)
  show "scan (x # xs) acc (Some v) ! Suc k = acc (scan (x # xs) acc (Some v) ! k) (xs ! k) (Suc k)"
    if "k < length xs" for k
    unfolding some using scan_outputs_nth [OF that, of "acc v x 0" acc 1] by simp
qed

theorem scan_modes_witness:
  "scan [Num 7, Num 8] pick_index (Some (Num 0)) = [Num 0, Num 1]
   \<and> scan [Num 7, Num 8] pick_index None = [Num 7, Num 1]"
  using scan_modes [of pick_index None "Num 7" "[Num 8]" "Num 0"]
  by (simp add: scan_def pick_index_def)

text \<open>
  The claim as written, for every initial value, fails when the value passed is
  \<open>undefined\<close>: the first output is the first element, not the accumulator's result.
\<close>

theorem scan_undefined_seed_counterexample:
  "scan [Num 7, Num 8] pick_index (Some Undefined) = [Num 7, Num 1]
   \<and> scan [Num 7, Num 8] pick_index (Some Undefined) ! 0 \<noteq> pick_index Undefined (Num 7) 0"
  by (simp add: scan_def pick_index_def)

text \<open>
  C10. \<open>reduce\<close> and \<open>scan\<close> test the third parameter against \<open>undefined\<close>, so
  passing \<open>undefined\<close> is the same as passing nothing: \<open>reduce\<close> of an empty input
  raises, and \<open>scan\<close> emits the first element as it is.
\<close>

theorem undefined_initial_is_omitted:
  "reduce xs r (Some Undefined) = reduce xs r None
   \<and> scan xs acc (Some Undefined) = scan xs acc None
   \<and> reduce [] r (Some Undefined) = Inl (TypeError ''Reduce of empty iterator with no initial value'')
   \<and> scan (x # xs) acc (Some Undefined) ! 0 = x"
  by (simp add: reduce_def scan_def iterator_reduce_def scan_loop_outputs)

section \<open>Stopping early\<close>

lemma first_index:
  assumes "\<exists>j < length xs. P j"
  shows "\<exists>j < length xs. P j \<and> (\<forall>i < j. \<not> P i)"
proof -
  from assms obtain j where j: "j < length xs \<and> P j" by blast
  define m where "m = (LEAST j. j < length xs \<and> P j)"
  from j have "m < length xs \<and> P m" unfolding m_def by (rule LeastI)
  moreover have "\<not> P i" if "i < m" for i
  proof
    assume "P i"
    moreover from that \<open>m < length xs \<and> P m\<close> have "i < length xs" by simp
    ultimately have "m \<le> i" unfolding m_def by (simp add: Least_le)
    with that show False by simp
  qed
  ultimately show ?thesis by blast
qed

lemma every_stops:
  "j < length xs \<Longrightarrow> \<not> p (xs ! j) (c + j) \<Longrightarrow> every p c xs fin = Inr False"
proof (induction xs arbitrary: c j)
  case Nil
  then show ?case by simp
next
  case (Cons x xs)
  show ?case
  proof (cases j)
    case 0
    with Cons.prems show ?thesis by simp
  next
    case (Suc k)
    with Cons.prems have "k < length xs" "\<not> p (xs ! k) (Suc c + k)" by simp_all
    from Cons.IH [OF this] show ?thesis by simp
  qed
qed

lemma some_stops:
  "j < length xs \<Longrightarrow> p (xs ! j) (c + j) \<Longrightarrow> some p c xs fin = Inr True"
proof (induction xs arbitrary: c j)
  case Nil
  then show ?case by simp
next
  case (Cons x xs)
  show ?case
  proof (cases j)
    case 0
    with Cons.prems show ?thesis by simp
  next
    case (Suc k)
    with Cons.prems have "k < length xs" "p (xs ! k) (Suc c + k)" by simp_all
    from Cons.IH [OF this] show ?thesis by simp
  qed
qed

lemma find_stops:
  "j < length xs \<Longrightarrow> p (xs ! j) (c + j) \<Longrightarrow> \<forall>i < j. \<not> p (xs ! i) (c + i) \<Longrightarrow>
   iterator_find p c xs fin = Inr (xs ! j)"
proof (induction xs arbitrary: c j)
  case Nil
  then show ?case by simp
next
  case (Cons x xs)
  show ?case
  proof (cases j)
    case 0
    with Cons.prems show ?thesis by simp
  next
    case (Suc k)
    with Cons.prems have k: "k < length xs" "p (xs ! k) (Suc c + k)" by simp_all
    have before: "\<forall>i < k. \<not> p (xs ! i) (Suc c + i)"
    proof (intro allI impI)
      fix i assume "i < k"
      with Suc have "Suc i < j" by simp
      with Cons.prems(3) have "\<not> p ((x # xs) ! Suc i) (c + Suc i)" by blast
      then show "\<not> p (xs ! i) (Suc c + i)" by simp
    qed
    from Suc Cons.prems(3) have "\<not> p ((x # xs) ! 0) (c + 0)" by blast
    then have "\<not> p x c" by simp
    with Cons.IH [OF k before] Suc show ?thesis by simp
  qed
qed

lemma findIndex_stops:
  "j < length xs \<Longrightarrow> p (xs ! j) (c + j) \<Longrightarrow> \<forall>i < j. \<not> p (xs ! i) (c + i) \<Longrightarrow>
   findIndex_loop p c xs fin = Inr (int (c + j))"
proof (induction xs arbitrary: c j)
  case Nil
  then show ?case by simp
next
  case (Cons x xs)
  show ?case
  proof (cases j)
    case 0
    with Cons.prems show ?thesis by simp
  next
    case (Suc k)
    with Cons.prems have k: "k < length xs" "p (xs ! k) (Suc c + k)" by simp_all
    have before: "\<forall>i < k. \<not> p (xs ! i) (Suc c + i)"
    proof (intro allI impI)
      fix i assume "i < k"
      with Suc have "Suc i < j" by simp
      with Cons.prems(3) have "\<not> p ((x # xs) ! Suc i) (c + Suc i)" by blast
      then show "\<not> p (xs ! i) (Suc c + i)" by simp
    qed
    from Suc Cons.prems(3) have "\<not> p ((x # xs) ! 0) (c + 0)" by blast
    then have "\<not> p x c" by simp
    with Cons.IH [OF k before] Suc show ?thesis by simp
  qed
qed

lemma takeWhile_stops:
  "j < length xs \<Longrightarrow> \<not> p (xs ! j) (c + j) \<Longrightarrow> \<forall>i < j. p (xs ! i) (c + i) \<Longrightarrow>
   takeWhile_loop p c xs fin result = Inr (result @ take j xs)"
proof (induction xs arbitrary: c j result)
  case Nil
  then show ?case by simp
next
  case (Cons x xs)
  show ?case
  proof (cases j)
    case 0
    with Cons.prems show ?thesis by simp
  next
    case (Suc k)
    with Cons.prems have k: "k < length xs" "\<not> p (xs ! k) (Suc c + k)" by simp_all
    have before: "\<forall>i < k. p (xs ! i) (Suc c + i)"
    proof (intro allI impI)
      fix i assume "i < k"
      with Suc have "Suc i < j" by simp
      with Cons.prems(3) have "p ((x # xs) ! Suc i) (c + Suc i)" by blast
      then show "p (xs ! i) (Suc c + i)" by simp
    qed
    from Suc Cons.prems(3) have "p ((x # xs) ! 0) (c + 0)" by blast
    then have "p x c" by simp
    with Cons.IH [OF k before, of "result @ [x]"] Suc show ?thesis by simp
  qed
qed

lemma take_stops:
  "n \<le> length xs \<Longrightarrow> iterator_take n xs fin result = Inr (result @ take n xs)"
proof (induction n xs fin result rule: iterator_take.induct)
qed simp_all

text \<open>
  C8. The input is a cursor with the elements \<open>xs\<close> that throws when pulled past
  them. \<open>all\<close> returns false when some element fails the predicate; \<open>any\<close>
  returns true, and \<open>find\<close> and \<open>findIndex\<close> return the first satisfying element
  and its index, when some element satisfies it; \<open>take\<close> returns the first
  \<open>limit\<close> elements when \<open>xs\<close> has that many; \<open>takeWhile\<close> returns the prefix
  before the first failing element when there is one. None of them raises.
\<close>

theorem short_circuit:
  "((\<exists>j < length xs. \<not> p (xs ! j) j) \<longrightarrow> all (xs, Raises err) p = Inr False)
   \<and> ((\<exists>j < length xs. p (xs ! j) j) \<longrightarrow> any (xs, Raises err) p = Inr True)
   \<and> ((\<exists>j < length xs. p (xs ! j) j) \<longrightarrow>
        (\<exists>j < length xs. p (xs ! j) j \<and> (\<forall>i < j. \<not> p (xs ! i) i)
           \<and> find_enum (xs, Raises err) p = Inr (xs ! j)
           \<and> findIndex (xs, Raises err) p = Inr (int j)))
   \<and> (0 \<le> limit \<and> nat limit \<le> length xs \<longrightarrow>
        take_enum (xs, Raises err) limit = Inr (take (nat limit) xs))
   \<and> ((\<exists>j < length xs. \<not> p (xs ! j) j) \<longrightarrow>
        (\<exists>j < length xs. \<not> p (xs ! j) j \<and> (\<forall>i < j. p (xs ! i) i)
           \<and> takeWhile_enum (xs, Raises err) p = Inr (take j xs)))"
proof (intro conjI impI)
  assume "\<exists>j < length xs. \<not> p (xs ! j) j"
  then obtain j where "j < length xs" "\<not> p (xs ! j) j" by auto
  with every_stops [of j xs p 0 "Raises err"] show "all (xs, Raises err) p = Inr False"
    by (simp add: all_def)
next
  assume "\<exists>j < length xs. p (xs ! j) j"
  then obtain j where "j < length xs" "p (xs ! j) j" by auto
  with some_stops [of j xs p 0 "Raises err"] show "any (xs, Raises err) p = Inr True"
    by (simp add: any_def)
next
  assume "\<exists>j < length xs. p (xs ! j) j"
  from first_index [of xs "\<lambda>j. p (xs ! j) j", OF this]
  obtain j where j: "j < length xs" "p (xs ! j) j" "\<forall>i < j. \<not> p (xs ! i) i"
    by auto
  with find_stops [of j xs p 0 "Raises err"] findIndex_stops [of j xs p 0 "Raises err"]
  have "find_enum (xs, Raises err) p = Inr (xs ! j)" "findIndex (xs, Raises err) p = Inr (int j)"
    by (simp_all add: find_enum_def findIndex_def)
  with j show "\<exists>j < length xs. p (xs ! j) j \<and> (\<forall>i < j. \<not> p (xs ! i) i)
           \<and> find_enum (xs, Raises err) p = Inr (xs ! j)
           \<and> findIndex (xs, Raises err) p = Inr (int j)"
    by blast
next
  assume "0 \<le> limit \<and> nat limit \<le> length xs"
  then show "take_enum (xs, Raises err) limit = Inr (take (nat limit) xs)"
    by (simp add: take_enum_def take_stops)
next
  assume "\<exists>j < length xs. \<not> p (xs ! j) j"
  from first_index [of xs "\<lambda>j. \<not> p (xs ! j) j", OF this]
  obtain j where j: "j < length xs" "\<not> p (xs ! j) j" "\<forall>i < j. p (xs ! i) i"
    by auto
  with takeWhile_stops [of j xs p 0 "Raises err" "[]"]
  have "takeWhile_enum (xs, Raises err) p = Inr (take j xs)"
    by (simp add: takeWhile_enum_def)
  with j show "\<exists>j < length xs. \<not> p (xs ! j) j \<and> (\<forall>i < j. p (xs ! i) i)
           \<and> takeWhile_enum (xs, Raises err) p = Inr (take j xs)"
    by blast
qed

theorem short_circuit_witness:
  "all ([Str ''a'', Str ''b'', Str ''c''], Raises (Error ''Bang!'')) (\<lambda>e i. e \<noteq> Str ''c'') = Inr False
   \<and> any ([Str ''a'', Str ''b'', Str ''c''], Raises (Error ''Bang!'')) (\<lambda>e i. e = Str ''c'') = Inr True
   \<and> find_enum ([Str ''a'', Str ''b'', Str ''c''], Raises (Error ''Bang!'')) (\<lambda>e i. e = Str ''c'') = Inr (Str ''c'')
   \<and> findIndex ([Str ''a'', Str ''b'', Str ''c''], Raises (Error ''Bang!'')) (\<lambda>e i. e = Str ''c'') = Inr 2
   \<and> take_enum ([Str ''a'', Str ''b'', Str ''c''], Raises (Error ''Bang!'')) 3 = Inr [Str ''a'', Str ''b'', Str ''c'']
   \<and> takeWhile_enum ([Str ''a'', Str ''b'', Str ''c''], Raises (Error ''Bang!'')) (\<lambda>e i. e \<noteq> Str ''c'')
       = Inr [Str ''a'', Str ''b'']"
  using short_circuit [of "[Str ''a'', Str ''b'', Str ''c'']" "\<lambda>e i. e \<noteq> Str ''c''" "Error ''Bang!''" 3]
    short_circuit [of "[Str ''a'', Str ''b'', Str ''c'']" "\<lambda>e i. e = Str ''c''" "Error ''Bang!''" 3]
  by (simp add: all_def any_def find_enum_def findIndex_def take_enum_def takeWhile_enum_def
      eval_nat_numeral)

end
